theory Spec2Isabelle
  imports Main "HOL-Library.Word"
begin

section \<open>EMFight: BLE scanner of src/app.py\<close>

text \<open>
  A shallow embedding of \<^verbatim>\<open>EMFightApp\<close> (src/app.py): the advertising-data decoder
  \<^verbatim>\<open>_decode_name\<close>, the radio callback \<^verbatim>\<open>_irq\<close>, the scan driver \<^verbatim>\<open>_do_scan\<close>,
  the teardown \<^verbatim>\<open>_cleanup_ble\<close> and the main loop \<^verbatim>\<open>run\<close>.
\<close>

subsection \<open>Bytes, text and errors\<close>

type_synonym byte = "8 word"

text \<open>A Python \<^verbatim>\<open>str\<close> is a sequence of Unicode code points.\<close>

type_synonym str = "nat list"

text \<open>
  The exceptions that reach an \<^verbatim>\<open>except Exception\<close> handler of the program:
  the decoding error of \<^verbatim>\<open>bytes.decode\<close>, and an error raised by a call into the
  radio driver, carrying its message (\<^verbatim>\<open>str(e)\<close>).
\<close>

datatype error = UnicodeError | RadioError string

fun error_text :: "error \<Rightarrow> string" where
  "error_text UnicodeError = ''invalid utf-8''"
| "error_text (RadioError msg) = msg"

subsection \<open>The runtime's \<^verbatim>\<open>bytes.decode("utf-8")\<close>\<close>

text \<open>
  Strict UTF-8 decoding, one byte at a time. \<open>need\<close> is the number of continuation
  bytes still owed to the code point under construction, \<open>acc\<close> its bits so far, \<open>lo\<close>
  the least value that is not an overlong encoding. \<open>None\<close> is the raised
  \<^verbatim>\<open>UnicodeError\<close>. A byte that cannot start a character (\<open>0x80\<close> to \<open>0xBF\<close>,
  \<open>0xF8\<close> to \<open>0xFF\<close>), a missing or wrong continuation byte and an unfinished
  character at the end are refused by every UTF-8 decoder; overlong forms, surrogates
  and values above \<open>0x10FFFF\<close> are refused by the strict ones.
\<close>

fun utf8_go :: "nat \<Rightarrow> nat \<Rightarrow> nat \<Rightarrow> byte list \<Rightarrow> str option" where
  "utf8_go need acc lo [] = (if need = 0 then Some [] else None)"
| "utf8_go need acc lo (b # bs) =
     (if need = 0 then
        (if unat b < 0x80 then map_option (Cons (unat b)) (utf8_go 0 0 0 bs)
         else if unat b < 0xC0 then None
         else if unat b < 0xE0 then utf8_go 1 (unat b - 0xC0) 0x80 bs
         else if unat b < 0xF0 then utf8_go 2 (unat b - 0xE0) 0x800 bs
         else if unat b < 0xF8 then utf8_go 3 (unat b - 0xF0) 0x10000 bs
         else None)
      else if 0x80 \<le> unat b \<and> unat b < 0xC0 then
        (if need = 1 then
           (if lo \<le> acc * 64 + (unat b - 0x80) \<and> acc * 64 + (unat b - 0x80) \<le> 0x10FFFF
               \<and> \<not> (0xD800 \<le> acc * 64 + (unat b - 0x80) \<and> acc * 64 + (unat b - 0x80) \<le> 0xDFFF)
            then map_option (Cons (acc * 64 + (unat b - 0x80))) (utf8_go 0 0 0 bs)
            else None)
         else utf8_go (need - 1) (acc * 64 + (unat b - 0x80)) lo bs)
      else None)"

definition utf8_decode :: "byte list \<Rightarrow> str option" where
  "utf8_decode bs = utf8_go 0 0 0 bs"

subsection \<open>\<^verbatim>\<open>_decode_name\<close>\<close>

text \<open>
  Python's \<^verbatim>\<open>xs[a:b]\<close> for \<open>0 \<le> a\<close>, \<open>0 \<le> b\<close>: the end is clipped to the length of
  the sequence, and nothing is raised.
\<close>

definition slice :: "'a list \<Rightarrow> nat \<Rightarrow> nat \<Rightarrow> 'a list" where
  "slice xs a b = take (b - a) (drop a xs)"

text \<open>
  The \<^verbatim>\<open>while\<close> loop of \<^verbatim>\<open>_decode_name\<close>, with its cursor \<open>i\<close>. The two reads
  \<^verbatim>\<open>adv_data[i]\<close> and \<^verbatim>\<open>adv_data[i + 1]\<close> are in range under the loop condition.
  \<open>Inr None\<close> is the returned \<^verbatim>\<open>None\<close>, \<open>Inl UnicodeError\<close> the exception of
  \<^verbatim>\<open>decode\<close>.
\<close>

function decode_loop :: "byte list \<Rightarrow> nat \<Rightarrow> error + str option" where
  "decode_loop adv_data i =
     (if i + 1 < length adv_data then
        (if unat (adv_data ! i) = 0 then Inr None
         else if adv_data ! (i + 1) = 0x09 then
           (case utf8_decode (slice adv_data (i + 2) (i + 1 + unat (adv_data ! i))) of
              None \<Rightarrow> Inl UnicodeError
            | Some t \<Rightarrow> Inr (Some t))
         else decode_loop adv_data (i + 1 + unat (adv_data ! i)))
      else Inr None)"
  by pat_completeness auto
termination
  by (relation "measure (\<lambda>(adv_data, i). length adv_data - i)") auto

declare decode_loop.simps [simp del]

definition decode_name :: "byte list \<Rightarrow> error + str option" where
  "decode_name adv_data = decode_loop adv_data 0"

text \<open>
  The records a scan walks over before it stops, read off the list itself: each has a
  length byte \<open>l \<noteq> 0\<close>, a type byte other than \<open>0x09\<close> and its \<open>l - 1\<close> data bytes.
\<close>

fun skipped_records :: "byte list \<Rightarrow> bool" where
  "skipped_records [] = True"
| "skipped_records [l] = False"
| "skipped_records (l # t # xs) =
     (l \<noteq> 0 \<and> t \<noteq> 0x09 \<and> unat l - 1 \<le> length xs \<and> skipped_records (drop (unat l - 1) xs))"

text \<open>
  The ways a scan ends without meeting a record of type \<open>0x09\<close>, read off what is
  left of the payload: nothing, a lone length byte, a record of length \<open>0\<close>, or a
  record of another type whose data run past the end of the buffer.
\<close>

fun stops_short :: "byte list \<Rightarrow> bool" where
  "stops_short [] = True"
| "stops_short [l] = True"
| "stops_short (l # t # xs) = (l = 0 \<or> (t \<noteq> 0x09 \<and> length xs < unat l - 1))"

subsection \<open>Formatting: \<^verbatim>\<open>"{:02x}".format\<close>, \<^verbatim>\<open>":".join\<close> and \<^verbatim>\<open>f"{n}"\<close>\<close>

definition hex_digit :: "nat \<Rightarrow> char" where
  "hex_digit d = ''0123456789abcdef'' ! d"

text \<open>The presentation type \<^verbatim>\<open>x\<close>: the lowercase hexadecimal digits of a number.\<close>

function hex_str :: "nat \<Rightarrow> string" where
  "hex_str n = (if n < 16 then [hex_digit n] else hex_str (n div 16) @ [hex_digit (n mod 16)])"
  by pat_completeness auto
termination
  by (relation "measure (\<lambda>n. n)") auto

declare hex_str.simps [simp del]

text \<open>The format \<^verbatim>\<open>{:02x}\<close>: padded with zeros on the left to a width of at least two.\<close>

definition format_02x :: "nat \<Rightarrow> string" where
  "format_02x n = replicate (2 - length (hex_str n)) CHR ''0'' @ hex_str n"

fun join :: "string \<Rightarrow> string list \<Rightarrow> string" where
  "join sep [] = []"
| "join sep [x] = x"
| "join sep (x # y # ys) = x @ sep @ join sep (y # ys)"

text \<open>Line 30: \<^verbatim>\<open>":".join("{:02x}".format(b) for b in bytes(addr))\<close>.\<close>

definition addr_str :: "byte list \<Rightarrow> string" where
  "addr_str a = join '':'' (map (\<lambda>b. format_02x (unat b)) a)"

text \<open>
  The canonical form of an address in the words of the specification: each byte as
  exactly two lowercase hexadecimal digits, high digit first, the bytes in their
  order with a single colon between neighbours.
\<close>

definition two_hex :: "byte \<Rightarrow> string" where
  "two_hex b = [''0123456789abcdef'' ! (unat b div 16), ''0123456789abcdef'' ! (unat b mod 16)]"

fun canonical_addr :: "byte list \<Rightarrow> string" where
  "canonical_addr [] = []"
| "canonical_addr [b] = two_hex b"
| "canonical_addr (b # c # bs) = two_hex b @ CHR '':'' # canonical_addr (c # bs)"

text \<open>The decimal digits of a number, as an f-string renders \<^verbatim>\<open>len(self.beacons)\<close>.\<close>

function show_nat :: "nat \<Rightarrow> string" where
  "show_nat n = (if n < 10 then [''0123456789'' ! n] else show_nat (n div 10) @ [''0123456789'' ! (n mod 10)])"
  by pat_completeness auto
termination
  by (relation "measure (\<lambda>n. n)") auto

declare show_nat.simps [simp del]

subsection \<open>The application object and its surroundings\<close>

text \<open>One entry of \<^verbatim>\<open>self.beacons\<close>: the dictionary with keys name, rssi and addr.\<close>

record beacon =
  name :: str
  rssi :: int
  addr :: string

text \<open>The radio object behind \<^verbatim>\<open>self._ble\<close>: what its \<^verbatim>\<open>active()\<close> reports.\<close>

record ble_handle =
  is_active :: bool

text \<open>The pressed state of the three buttons the loop asks \<^verbatim>\<open>button_states\<close> for.\<close>

record buttons =
  btn_cancel :: bool
  btn_up :: bool
  btn_down :: bool

text \<open>
  The calls into the radio driver and its module: \<^verbatim>\<open>import bluetooth\<close>,
  \<^verbatim>\<open>bluetooth.BLE()\<close>, \<^verbatim>\<open>active()\<close>, \<^verbatim>\<open>irq(handler)\<close>, \<^verbatim>\<open>active(flag)\<close>,
  \<^verbatim>\<open>gap_scan(duration_ms, interval_us, window_us)\<close> and \<^verbatim>\<open>gap_scan(None)\<close>.
\<close>

datatype cmd =
    ImportBluetooth
  | Create
  | IsActive
  | SetIrq
  | Activate bool
  | GapScan int int int
  | GapScanStop

text \<open>
  What the program does to the world outside the object, in order: a call into the
  radio driver, a cooperative sleep of so many milliseconds, \<^verbatim>\<open>self.minimise()\<close>,
  \<^verbatim>\<open>render_update()\<close>.
\<close>

datatype effect = Radio cmd | Sleep nat | Minimise | Render

text \<open>
  The fields of \<^verbatim>\<open>EMFightApp\<close>, and \<open>trace\<close>, the effects so far (oldest first).
  The status line and the message of an exception are kept as \<open>string\<close>, one
  character for each code point.
\<close>

record app =
  button_states :: buttons
  beacons :: "beacon list"
  status :: string
  scan_requested :: bool
  scan_complete :: bool
  ble :: "ble_handle option"
  trace :: "effect list"

text \<open>\<^verbatim>\<open>__init__\<close>.\<close>

definition init :: app where
  "init = \<lparr>button_states = \<lparr>btn_cancel = False, btn_up = False, btn_down = False\<rparr>,
            beacons = [], status = ''Press A to scan'', scan_requested = False,
            scan_complete = False, ble = None, trace = []\<rparr>"

text \<open>
  The radio driver calls \<^verbatim>\<open>_irq(event, data)\<close> with event code 5 and the tuple
  \<^verbatim>\<open>(addr_type, addr, adv_type, rssi, adv_data)\<close>, with event code 6, or with
  another event code.
\<close>

datatype event =
    ScanResult int "byte list" int int "byte list"
  | ScanDone
  | OtherEvent int

subsection \<open>\<^verbatim>\<open>_irq\<close>\<close>

text \<open>
  Lines 32 to 37: the entry is appended unless an entry with the same address is
  already in the list.
\<close>

definition upsert :: "beacon list \<Rightarrow> str \<Rightarrow> int \<Rightarrow> string \<Rightarrow> beacon list" where
  "upsert bs n r a =
     (if \<not> list_ex (\<lambda>b. addr b = a) bs then bs @ [\<lparr>name = n, rssi = r, addr = a\<rparr>] else bs)"

text \<open>\<^verbatim>\<open>x or "?"\<close>: the placeholder replaces \<^verbatim>\<open>None\<close> and the empty string.\<close>

definition or_placeholder :: "str option \<Rightarrow> str" where
  "or_placeholder x = (case x of None \<Rightarrow> [63] | Some t \<Rightarrow> if t = [] then [63] else t)"

text \<open>
  The body of the \<^verbatim>\<open>try\<close> in \<^verbatim>\<open>_irq\<close>. The decoder is called before anything is
  written, so its exception leaves the object as it was. The \<^verbatim>\<open>print\<close> calls of the
  program write diagnostics to the console; they change nothing in the object and
  are left out.
\<close>

definition irq_scan_result :: "app \<Rightarrow> byte list \<Rightarrow> int \<Rightarrow> byte list \<Rightarrow> error + app" where
  "irq_scan_result s a r adv_data =
     (case decode_name adv_data of
        Inl e \<Rightarrow> Inl e
      | Inr x \<Rightarrow> Inr (s\<lparr>beacons := upsert (beacons s) (or_placeholder x) r (addr_str a)\<rparr>))"

fun irq :: "app \<Rightarrow> event \<Rightarrow> app" where
  "irq s (ScanResult addr_type a adv_type r adv_data) =
     (case irq_scan_result s a r adv_data of Inl e \<Rightarrow> s | Inr s' \<Rightarrow> s')"
| "irq s ScanDone = s\<lparr>scan_complete := True\<rparr>"
| "irq s (OtherEvent n) = s"

text \<open>The callbacks for a batch of events, in the order of the events.\<close>

definition deliver :: "event list \<Rightarrow> app \<Rightarrow> app" where
  "deliver es s = foldl irq s es"

subsection \<open>Calls into the radio driver\<close>

text \<open>
  What the radio does during one scan attempt or one teardown: which of the calls
  raise, and with what message; the events it delivers after \<^verbatim>\<open>gap_scan\<close> has
  returned and before the flag is first tested; and the events it delivers during each
  sleep of the wait, in order (none once the list is used up). Before a successful
  \<^verbatim>\<open>gap_scan\<close> no scan is in flight and nothing is delivered.
\<close>

record radio =
  fails :: "cmd \<Rightarrow> string option"
  early :: "event list"
  polls :: "event list list"

text \<open>A result: the exception on its way out, if any, and the object at that point.\<close>

type_synonym outcome = "error option \<times> app"

definition call :: "radio \<Rightarrow> cmd \<Rightarrow> app \<Rightarrow> outcome" where
  "call r c s =
     (map_option RadioError (fails r c), s\<lparr>trace := trace s @ [Radio c]\<rparr>)"

text \<open>Sequencing: the next statement runs unless an exception is on its way out.\<close>

definition and_then :: "outcome \<Rightarrow> (app \<Rightarrow> outcome) \<Rightarrow> outcome" where
  "and_then x f = (case x of (None, s) \<Rightarrow> f s | (Some e, s) \<Rightarrow> (Some e, s))"

definition sleep :: "nat \<Rightarrow> app \<Rightarrow> app" where
  "sleep ms s = s\<lparr>trace := trace s @ [Sleep ms]\<rparr>"

subsection \<open>\<^verbatim>\<open>_do_scan\<close>\<close>

text \<open>
  Lines 118 to 121: the wait for \<^verbatim>\<open>scan_complete\<close>, with its counter. Each turn
  sleeps 100 ms, during which the next batch of events is delivered.
\<close>

function wait_loop :: "int \<Rightarrow> event list list \<Rightarrow> app \<Rightarrow> int \<times> app" where
  "wait_loop timeout batches s =
     (if \<not> scan_complete s \<and> timeout > 0
      then wait_loop (timeout - 1) (tl batches)
             (deliver (case batches of [] \<Rightarrow> [] | b # _ \<Rightarrow> b) (sleep 100 s))
      else (timeout, s))"
  by pat_completeness auto
termination
  by (relation "measure (\<lambda>(timeout, batches, s). nat timeout)") auto

declare wait_loop.simps [simp del]

text \<open>
  The body of the \<^verbatim>\<open>try\<close>, lines 91 to 124. A method call on \<^verbatim>\<open>self._ble\<close> while
  it is \<^verbatim>\<open>None\<close> would raise; the assignment of line 100 excludes it.
\<close>

definition do_scan_try :: "radio \<Rightarrow> app \<Rightarrow> outcome" where
  "do_scan_try r s0 =
     and_then (call r ImportBluetooth s0) (\<lambda>s.
     and_then (if ble s = None
               then and_then (call r Create s) (\<lambda>s. (None, s\<lparr>ble := Some \<lparr>is_active = False\<rparr>\<rparr>))
               else (None, s)) (\<lambda>s.
     and_then (call r IsActive s) (\<lambda>s.
     and_then (call r IsActive s) (\<lambda>s.
     and_then (case ble s of
                 None \<Rightarrow> (Some (RadioError ''AttributeError''), s)
               | Some h \<Rightarrow>
                   if \<not> is_active h
                   then and_then (call r SetIrq s) (\<lambda>s.
                        and_then (call r (Activate True) s) (\<lambda>s.
                        (None, sleep 300 (s\<lparr>ble := Some (h\<lparr>is_active := True\<rparr>)\<rparr>))))
                   else (None, s)) (\<lambda>s.
     and_then (call r (GapScan 2000 30000 30000) (s\<lparr>status := ''Scanning...''\<rparr>)) (\<lambda>s.
     (case wait_loop 30 (polls r) (deliver (early r) s) of
        (timeout, s) \<Rightarrow> (None, s\<lparr>status := ''Found '' @ show_nat (length (beacons s))\<rparr>))))))))"

text \<open>
  \<^verbatim>\<open>_do_scan\<close>: the three resets of lines 86 to 88, the \<^verbatim>\<open>try\<close>, and the handler of
  lines 126 to 128.
\<close>

definition do_scan :: "radio \<Rightarrow> app \<Rightarrow> outcome" where
  "do_scan r s =
     (case do_scan_try r (s\<lparr>status := ''Init...'', beacons := [], scan_complete := False\<rparr>) of
        (None, s') \<Rightarrow> (None, s')
      | (Some e, s') \<Rightarrow> (None, s'\<lparr>status := ''Err: '' @ take 15 (error_text e)\<rparr>))"

subsection \<open>\<^verbatim>\<open>_cleanup_ble\<close> and \<^verbatim>\<open>run\<close>\<close>

text \<open>The bare \<^verbatim>\<open>except\<close> of \<^verbatim>\<open>_cleanup_ble\<close> drops whatever the two calls raise.\<close>

definition cleanup_ble :: "radio \<Rightarrow> app \<Rightarrow> outcome" where
  "cleanup_ble r s =
     (case ble s of
        None \<Rightarrow> (None, s)
      | Some h \<Rightarrow>
          (case and_then (call r GapScanStop s) (\<lambda>s.
                and_then (call r (Activate False) s) (\<lambda>s.
                (None, s\<lparr>ble := Some (h\<lparr>is_active := False\<rparr>)\<rparr>)))
           of (e, s') \<Rightarrow> (None, s')))"

text \<open>\<^verbatim>\<open>self.button_states.clear()\<close>.\<close>

definition clear_buttons :: "app \<Rightarrow> app" where
  "clear_buttons s = s\<lparr>button_states := \<lparr>btn_cancel = False, btn_up = False, btn_down = False\<rparr>\<rparr>"

text \<open>
  One turn of the loop sees the buttons pressed since the last one, and the radio
  behaves in some way while it runs.
\<close>

record frame =
  pressed :: buttons
  radio_now :: radio

definition press :: "buttons \<Rightarrow> app \<Rightarrow> app" where
  "press p s = s\<lparr>button_states :=
     \<lparr>btn_cancel = btn_cancel (button_states s) \<or> btn_cancel p,
      btn_up = btn_up (button_states s) \<or> btn_up p,
      btn_down = btn_down (button_states s) \<or> btn_down p\<rparr>\<rparr>"

text \<open>
  How \<^verbatim>\<open>run\<close> stands after the turns it was given: it has returned, an exception
  has left it, or it is still looping.
\<close>

datatype run_state = Exited | Crashed error | Looping

text \<open>Lines 68 to 81: the part of a turn after the test for CANCEL.\<close>

definition turn :: "radio \<Rightarrow> app \<Rightarrow> outcome" where
  "turn r s0 =
     (let s1 = (if btn_up (button_states s0)
                then (clear_buttons s0)\<lparr>scan_requested := True\<rparr> else s0);
          s2 = (if btn_down (button_states s1)
                then (clear_buttons s1)\<lparr>beacons := [], status := ''Cleared''\<rparr> else s1)
      in and_then (if scan_requested s2 then do_scan r (s2\<lparr>scan_requested := False\<rparr>)
                   else (None, s2))
           (\<lambda>s. (None, s\<lparr>trace := trace s @ [Render]\<rparr>)))"

fun run :: "frame list \<Rightarrow> app \<Rightarrow> run_state \<times> app" where
  "run [] s = (Looping, s)"
| "run (f # fs) s =
     (if btn_cancel (button_states (press (pressed f) s))
      then (case cleanup_ble (radio_now f) (clear_buttons (press (pressed f) s)) of
              (None, s') \<Rightarrow> (Exited, s'\<lparr>trace := trace s' @ [Minimise]\<rparr>)
            | (Some e, s') \<Rightarrow> (Crashed e, s'))
      else (case turn (radio_now f) (press (pressed f) s) of
              (None, s') \<Rightarrow> run fs s'
            | (Some e, s') \<Rightarrow> (Crashed e, s')))"

subsection \<open>Sequences of insertions\<close>

text \<open>
  A run of insertions into the list, each with the name, signal strength and address
  it was called with.
\<close>

type_synonym upsert_call = "str \<times> int \<times> string"

definition upserts :: "beacon list \<Rightarrow> upsert_call list \<Rightarrow> beacon list" where
  "upserts bs calls = foldl (\<lambda>bs (n, r, a). upsert bs n r a) bs calls"

text \<open>
  First-discovery order in the words of the specification: the entry of the first
  call, then what the later calls give for the other addresses.
\<close>

fun first_calls :: "upsert_call list \<Rightarrow> beacon list" where
  "first_calls [] = []"
| "first_calls ((n, r, a) # cs) =
     \<lparr>name = n, rssi = r, addr = a\<rparr> # filter (\<lambda>b. addr b \<noteq> a) (first_calls cs)"

subsection \<open>What a scan attempt does to the world\<close>

text \<open>
  The effects of a scan attempt up to the return of \<^verbatim>\<open>gap_scan\<close> when no call
  raises, read off the state it starts from: the radio object is created when there
  is none, and it is subscribed to, activated and given 300 ms to settle when it is
  not active.
\<close>

definition scan_effects :: "app \<Rightarrow> effect list" where
  "scan_effects s =
     [Radio ImportBluetooth] @ (if ble s = None then [Radio Create] else [])
     @ [Radio IsActive, Radio IsActive]
     @ (case ble s of
          None \<Rightarrow> [Radio SetIrq, Radio (Activate True), Sleep 300]
        | Some h \<Rightarrow> if is_active h then [] else [Radio SetIrq, Radio (Activate True), Sleep 300])
     @ [Radio (GapScan 2000 30000 30000)]"

text \<open>An effect goes through unless it is a call that the radio makes raise.\<close>

fun succeeds :: "radio \<Rightarrow> effect \<Rightarrow> bool" where
  "succeeds r (Radio c) = (fails r c = None)"
| "succeeds r (Sleep ms) = True"
| "succeeds r Minimise = True"
| "succeeds r Render = True"

text \<open>The first call of a scan attempt that raises, with its message.\<close>

definition first_failure :: "radio \<Rightarrow> app \<Rightarrow> (cmd \<times> string) option" where
  "first_failure r s =
     (case dropWhile (succeeds r) (scan_effects s) of
        Radio c # rest \<Rightarrow> map_option (Pair c) (fails r c)
      | _ \<Rightarrow> None)"

fun is_discovery :: "event \<Rightarrow> bool" where
  "is_discovery (ScanResult addr_type a adv_type r adv_data) = True"
| "is_discovery ScanDone = False"
| "is_discovery (OtherEvent n) = False"

text \<open>
  The object at the return of \<^verbatim>\<open>gap_scan\<close> in an attempt where no call raised:
  list and flag reset, the radio active, the status line of line 112.
\<close>

definition scanning :: "app \<Rightarrow> app" where
  "scanning s = s\<lparr>beacons := [], scan_complete := False, ble := Some \<lparr>is_active = True\<rparr>,
                  status := ''Scanning...'', trace := trace s @ scan_effects s\<rparr>"


section \<open>Verified properties\<close>

subsection \<open>The decoder\<close>

text \<open>Skipping whole records moves the cursor to the first byte after them.\<close>

lemma decode_loop_skip:
  "skipped_records pre \<Longrightarrow>
   decode_loop (xs @ pre @ rest0) (length xs) = decode_loop (xs @ pre @ rest0) (length xs + length pre)"
proof (induction pre arbitrary: xs rule: skipped_records.induct)
  case 1
  then show ?case by simp
next
  case (2 l)
  then show ?case by simp
next
  case (3 l t ys)
  let ?adv = "xs @ (l # t # ys) @ rest0"
  let ?k = "unat l - 1"
  from "3.prems" have l0: "unat l \<noteq> 0" and t9: "t \<noteq> 0x09" and le: "?k \<le> length ys"
    and rst: "skipped_records (drop ?k ys)"
    by (simp_all add: unat_eq_0)
  let ?xs' = "xs @ l # t # take ?k ys"
  have len: "length ?xs' = length xs + 1 + unat l" using l0 le by simp
  have adv: "?adv = ?xs' @ drop ?k ys @ rest0" by simp
  have step: "decode_loop ?adv (length xs) = decode_loop ?adv (length xs + 1 + unat l)"
    using l0 t9 by (subst decode_loop.simps) (simp add: nth_append)
  have ih: "decode_loop (?xs' @ drop ?k ys @ rest0) (length ?xs')
      = decode_loop (?xs' @ drop ?k ys @ rest0) (length ?xs' + length (drop ?k ys))"
    using "3.prems" by (intro "3.IH") (simp_all add: unat_eq_0)
  have tot: "length ?xs' + length (drop ?k ys) = length xs + length (l # t # ys)"
    using l0 le by simp
  have "decode_loop ?adv (length xs) = decode_loop ?adv (length ?xs')"
    using step len by (simp only:)
  also have "\<dots> = decode_loop ?adv (length ?xs' + length (drop ?k ys))"
    using ih by (simp only: adv [symmetric])
  also have "\<dots> = decode_loop ?adv (length xs + length (l # t # ys))"
    by (simp only: tot)
  finally show ?case .
qed

text \<open>At a record of type \<open>0x09\<close> the loop decodes the bytes the slice finds.\<close>

lemma decode_loop_name:
  assumes "l \<noteq> 0"
  shows "decode_loop (pre @ l # 0x09 # xs) (length pre) =
     (case utf8_decode (take (unat l - 1) xs) of None \<Rightarrow> Inl UnicodeError | Some t \<Rightarrow> Inr (Some t))"
proof -
  have l0: "unat l \<noteq> 0" using assms by (simp add: unat_eq_0)
  have "slice (pre @ l # 0x09 # xs) (length pre + 2) (length pre + 1 + unat l) = take (unat l - 1) xs"
    by (simp add: slice_def)
  then show ?thesis
    using l0 by (subst decode_loop.simps) (simp add: nth_append)
qed

lemma decode_loop_short:
  assumes "stops_short tail"
  shows "decode_loop (pre @ tail) (length pre) = Inr None"
proof (cases tail rule: stops_short.cases)
  case 1
  then show ?thesis by (subst decode_loop.simps) simp
next
  case (2 l)
  then show ?thesis by (subst decode_loop.simps) simp
next
  case (3 l t xs)
  show ?thesis
  proof (cases "l = 0")
    case True
    with 3 show ?thesis by (subst decode_loop.simps) (simp add: nth_append)
  next
    case False
    with 3 assms have t9: "t \<noteq> 0x09" and short: "length xs < unat l - 1" by simp_all
    from False have l0: "unat l \<noteq> 0" by (simp add: unat_eq_0)
    have "decode_loop (pre @ tail) (length pre) = decode_loop (pre @ tail) (length pre + 1 + unat l)"
      using 3 l0 t9 by (subst decode_loop.simps) (simp add: nth_append)
    also have "\<dots> = Inr None"
    proof -
      have "\<not> length pre + 1 + unat l + 1 < length (pre @ tail)"
        using 3 short by simp
      then show ?thesis by (subst decode_loop.simps) (simp only: if_False)
    qed
    finally show ?thesis .
  qed
qed

text \<open>
  C1 (as amended). When the payload is a run of complete records of other types, each
  with a nonzero length byte, followed by a record with length byte \<open>l \<noteq> 0\<close>, type
  \<open>0x09\<close> and all of its \<open>l - 1\<close> data bytes, \<^verbatim>\<open>_decode_name\<close> returns those
  \<open>l - 1\<close> bytes decoded as UTF-8 when they are valid UTF-8, and raises the decoding
  error when they are not; whatever follows the record is ignored.
\<close>

theorem decode_name_found:
  assumes "skipped_records pre" and "l \<noteq> 0" and "length body = unat l - 1"
  shows "decode_name (pre @ l # 0x09 # body @ rest) =
     (case utf8_decode body of None \<Rightarrow> Inl UnicodeError | Some t \<Rightarrow> Inr (Some t))"
proof -
  have "decode_name (pre @ l # 0x09 # body @ rest)
      = decode_loop ([] @ pre @ l # 0x09 # body @ rest) (length ([] :: byte list) + length pre)"
    unfolding decode_name_def using decode_loop_skip [OF assms(1), of "[]"] by simp
  also have "\<dots> = (case utf8_decode (take (unat l - 1) (body @ rest)) of
       None \<Rightarrow> Inl UnicodeError | Some t \<Rightarrow> Inr (Some t))"
    using decode_loop_name [OF assms(2), of pre "body @ rest"] by simp
  finally show ?thesis using assms(3) by simp
qed

theorem decode_name_found_witness:
  "skipped_records [2, 1, 6] \<and> (3 :: byte) \<noteq> 0 \<and>
   decode_name ([2, 1, 6] @ 3 # 0x09 # [0x41, 0x42] @ [7]) = Inr (Some [65, 66])"
  using decode_name_found [of "[2, 1, 6]" 3 "[0x41, 0x42]" "[7]"]
  by (simp add: utf8_decode_def)

text \<open>
  C1 as stated fails twice over. A complete record of type \<open>0x09\<close> whose one data
  byte is not UTF-8 makes \<^verbatim>\<open>_decode_name\<close> raise instead of returning text; and a
  complete record of type \<open>0x09\<close> that sits behind a length byte of \<open>0\<close> is never
  reached, so \<^verbatim>\<open>None\<close> is returned.
\<close>

theorem decode_name_invalid_utf8:
  "decode_name [0x02, 0x09, 0xFF] = Inl UnicodeError \<and>
   decode_name [0x00, 0x02, 0x09, 0x41] = Inr None"
  by (simp add: decode_name_def decode_loop.simps slice_def utf8_decode_def)

text \<open>
  C2 (as amended). When the scan meets no record of type \<open>0x09\<close> (after a run of
  complete records of other types the payload ends, or holds a lone length byte, or a
  record of length \<open>0\<close>, or a record of another type cut short by the end of the
  buffer), \<^verbatim>\<open>_decode_name\<close> returns \<^verbatim>\<open>None\<close> and raises nothing.
\<close>

theorem decode_name_absent:
  assumes "skipped_records pre" and "stops_short tail"
  shows "decode_name (pre @ tail) = Inr None"
proof -
  have "decode_name (pre @ tail) = decode_loop ([] @ pre @ tail) (length ([] :: byte list) + length pre)"
    unfolding decode_name_def using decode_loop_skip [OF assms(1), of "[]"] by simp
  then show ?thesis using decode_loop_short [OF assms(2), of pre] by simp
qed

theorem decode_name_absent_witness:
  "skipped_records [2, 1, 6] \<and> stops_short [5, 0xFF, 1, 2] \<and>
   decode_name ([2, 1, 6] @ [5, 0xFF, 1, 2]) = Inr None"
  using decode_name_absent [of "[2, 1, 6]" "[5, 0xFF, 1, 2]"]
  by simp

text \<open>
  C2 as stated fails on a truncated record of type \<open>0x09\<close>: the slice is clipped to
  the buffer, so the bytes that are present are returned as the name, and when they
  stop in the middle of a character the decoding error is raised.
\<close>

theorem decode_name_truncated_name:
  "decode_name [0x05, 0x09, 0x41] = Inr (Some [0x41]) \<and>
   decode_name [0x03, 0x09, 0xC3] = Inl UnicodeError"
  by (simp add: decode_name_def decode_loop.simps slice_def utf8_decode_def)

subsection \<open>The registry\<close>

lemma list_ex_addr: "list_ex (\<lambda>b. addr b = a) bs \<longleftrightarrow> a \<in> addr ` set bs"
  by (auto simp: list_ex_iff)

lemma upserts_Nil [simp]: "upserts bs [] = bs"
  by (simp add: upserts_def)

lemma upserts_Cons [simp]: "upserts bs ((n, r, a) # cs) = upserts (upsert bs n r a) cs"
  by (simp add: upserts_def)

lemma upserts_first_calls:
  "upserts bs calls = bs @ filter (\<lambda>b. addr b \<notin> addr ` set bs) (first_calls calls)"
proof (induction calls arbitrary: bs)
  case Nil
  then show ?case by simp
next
  case (Cons c cs)
  obtain n r a where c: "c = (n, r, a)" by (cases c)
  show ?case
  proof (cases "a \<in> addr ` set bs")
    case True
    then have "upsert bs n r a = bs" by (simp add: upsert_def list_ex_addr)
    moreover have "filter (\<lambda>b. addr b \<notin> addr ` set bs) (filter (\<lambda>b. addr b \<noteq> a) (first_calls cs))
        = filter (\<lambda>b. addr b \<notin> addr ` set bs) (first_calls cs)"
      using True by (auto intro!: filter_cong)
    ultimately show ?thesis using True Cons.IH [of bs] by (simp add: c)
  next
    case False
    let ?e = "\<lparr>name = n, rssi = r, addr = a\<rparr>"
    from False have up: "upsert bs n r a = bs @ [?e]" by (simp add: upsert_def list_ex_addr)
    have "filter (\<lambda>b. addr b \<notin> addr ` set (bs @ [?e])) (first_calls cs)
        = filter (\<lambda>b. addr b \<notin> addr ` set bs) (filter (\<lambda>b. addr b \<noteq> a) (first_calls cs))"
      by (auto intro!: filter_cong)
    then show ?thesis using False up Cons.IH [of "bs @ [?e]"] by (simp add: c)
  qed
qed

lemma set_first_calls: "addr ` set (first_calls cs) = (\<lambda>(n, r, a). a) ` set cs"
proof (induction cs)
  case Nil
  then show ?case by simp
next
  case (Cons c cs)
  obtain n r a where c: "c = (n, r, a)" by (cases c)
  have "addr ` set (filter (\<lambda>b. addr b \<noteq> a) (first_calls cs)) = addr ` set (first_calls cs) - {a}"
    by auto
  then show ?case using Cons.IH by (auto simp: c)
qed

lemma distinct_first_calls: "distinct (map addr (first_calls cs))"
proof (induction cs)
  case Nil
  then show ?case by simp
next
  case (Cons c cs)
  obtain n r a where c: "c = (n, r, a)" by (cases c)
  have "distinct (map addr (filter (\<lambda>b. addr b \<noteq> a) (first_calls cs)))"
    using Cons.IH by (simp add: distinct_map_filter)
  then show ?case by (auto simp: c)
qed

lemma length_first_calls: "length (first_calls cs) = card ((\<lambda>(n, r, a). a) ` set cs)"
proof -
  have "length (first_calls cs) = length (map addr (first_calls cs))" by simp
  also have "\<dots> = card (set (map addr (first_calls cs)))"
    using distinct_first_calls [of cs] by (simp only: distinct_card)
  also have "\<dots> = card ((\<lambda>(n, r, a). a) ` set cs)"
    using set_first_calls [of cs] by simp
  finally show ?thesis .
qed

text \<open>
  C3. An insertion whose address is already in the list changes nothing (the entry
  keeps its name and signal strength, the list its length and order); an insertion
  with a fresh address appends exactly one entry at the end. After any run of
  insertions the list is the old list followed by the first-discovery entries of the
  addresses that were not in it, so it grows by at most one entry for each distinct
  address.
\<close>

theorem upsert_first_wins:
  "(list_ex (\<lambda>b. addr b = a) bs \<longrightarrow> upsert bs n r a = bs) \<and>
   (\<not> list_ex (\<lambda>b. addr b = a) bs \<longrightarrow> upsert bs n r a = bs @ [\<lparr>name = n, rssi = r, addr = a\<rparr>]) \<and>
   upserts bs calls = bs @ filter (\<lambda>b. \<not> list_ex (\<lambda>b'. addr b' = addr b) bs) (first_calls calls) \<and>
   length (upserts bs calls) \<le> length bs + card ((\<lambda>(n, r, a). a) ` set calls)"
proof -
  have 3: "upserts bs calls = bs @ filter (\<lambda>b. \<not> list_ex (\<lambda>b'. addr b' = addr b) bs) (first_calls calls)"
    using upserts_first_calls [of bs calls] by (simp add: list_ex_addr)
  have "length (upserts bs calls) \<le> length bs + length (first_calls calls)"
    by (simp add: upserts_first_calls)
  then have 4: "length (upserts bs calls) \<le> length bs + card ((\<lambda>(n, r, a). a) ` set calls)"
    by (simp only: length_first_calls)
  show ?thesis using 3 4 by (simp add: upsert_def)
qed

theorem upsert_first_wins_witness:
  "list_ex (\<lambda>b. addr b = ''aa'') [\<lparr>name = [65], rssi = -40, addr = ''aa''\<rparr>] \<and>
   upsert [\<lparr>name = [65], rssi = -40, addr = ''aa''\<rparr>] [67] (-60) ''aa''
     = [\<lparr>name = [65], rssi = -40, addr = ''aa''\<rparr>] \<and>
   upserts [\<lparr>name = [65], rssi = -40, addr = ''aa''\<rparr>]
       [([66], -50, ''bb''), ([67], -60, ''aa''), ([68], -70, ''bb'')]
     = [\<lparr>name = [65], rssi = -40, addr = ''aa''\<rparr>, \<lparr>name = [66], rssi = -50, addr = ''bb''\<rparr>]"
  using upsert_first_wins [of "''aa''" "[\<lparr>name = [65], rssi = -40, addr = ''aa''\<rparr>]" "[67]" "-60"
      "[([66], -50, ''bb''), ([67], -60, ''aa''), ([68], -70, ''bb'')]"]
  by simp

subsection \<open>The callback\<close>

text \<open>A byte has at most two hexadecimal digits, so the padded form has exactly two.\<close>

lemma hex_str_byte:
  assumes "n < 256"
  shows "hex_str n = (if n < 16 then [hex_digit n] else [hex_digit (n div 16), hex_digit (n mod 16)])"
proof (cases "n < 16")
  case True
  then show ?thesis by (subst hex_str.simps) simp
next
  case False
  from assms have "n div 16 < 16" by simp
  then have "hex_str (n div 16) = [hex_digit (n div 16)]" by (subst hex_str.simps) simp
  then show ?thesis using False by (subst hex_str.simps) simp
qed

lemma format_02x_byte: "format_02x (unat (b :: byte)) = two_hex b"
proof -
  have lt: "unat b < 256" using unsigned_less [of b, where ?'a = nat] by simp
  show ?thesis
  proof (cases "unat b < 16")
    case True
    then show ?thesis
      by (simp add: format_02x_def hex_str_byte [OF lt] two_hex_def hex_digit_def)
  next
    case False
    then show ?thesis
      by (simp add: format_02x_def hex_str_byte [OF lt] two_hex_def hex_digit_def)
  qed
qed

lemma addr_str_canonical: "addr_str a = canonical_addr a"
  unfolding addr_str_def
  by (induction a rule: canonical_addr.induct) (simp_all add: format_02x_byte)

text \<open>
  C8. The address string that \<^verbatim>\<open>_irq\<close> computes from the raw address bytes is their
  canonical form (two lowercase hexadecimal digits for each byte, single colons
  between, the bytes in their order), and a discovery event either leaves the list
  as it was or appends one entry that carries this string as its address.
\<close>

theorem stored_addr_canonical:
  "addr_str a = canonical_addr a \<and>
   (beacons (irq s (ScanResult t a v r d)) = beacons s \<or>
    (\<exists>n. beacons (irq s (ScanResult t a v r d))
       = beacons s @ [\<lparr>name = n, rssi = r, addr = canonical_addr a\<rparr>]))"
proof -
  have "beacons (irq s (ScanResult t a v r d)) = beacons s \<or>
    (\<exists>n. beacons (irq s (ScanResult t a v r d))
       = beacons s @ [\<lparr>name = n, rssi = r, addr = addr_str a\<rparr>])"
    by (cases "decode_name d") (simp_all add: irq_scan_result_def upsert_def)
  then show ?thesis by (simp only: addr_str_canonical simp_thms)
qed

theorem stored_addr_canonical_witness:
  "addr_str [0xAB, 0x01, 0xFF, 0x00, 0x9C, 0x10] = ''ab:01:ff:00:9c:10'' \<and>
   beacons (irq init (ScanResult 0 [0xAB, 0x01, 0xFF, 0x00, 0x9C, 0x10] 0 (-42) [2, 9, 0x41]))
     = [\<lparr>name = [0x41], rssi = -42, addr = ''ab:01:ff:00:9c:10''\<rparr>]"
  using stored_addr_canonical [of "[0xAB, 0x01, 0xFF, 0x00, 0x9C, 0x10]" init 0 0 "-42" "[2, 9, 0x41]"]
  by (simp add: two_hex_def init_def irq_scan_result_def upsert_def or_placeholder_def
      decode_name_def decode_loop.simps slice_def utf8_decode_def)

text \<open>
  C9. One discovery event is handled all or nothing: when the decoder raises, the
  object after the callback is the object before it; in every case the completion
  flag is untouched, and the list is either unchanged or longer by one complete
  entry.
\<close>

theorem irq_atomic:
  "(decode_name d = Inl e \<longrightarrow> irq s (ScanResult t a v r d) = s) \<and>
   scan_complete (irq s (ScanResult t a v r d)) = scan_complete s \<and>
   (beacons (irq s (ScanResult t a v r d)) = beacons s \<or>
    (\<exists>x. decode_name d = Inr x \<and> beacons (irq s (ScanResult t a v r d))
       = beacons s @ [\<lparr>name = or_placeholder x, rssi = r, addr = addr_str a\<rparr>]))"
  by (cases "decode_name d") (simp_all add: irq_scan_result_def upsert_def)

theorem irq_atomic_witness:
  "decode_name [2, 9, 0xFF] = Inl UnicodeError \<and>
   irq init (ScanResult 0 [0xAB, 0x01] 0 (-42) [2, 9, 0xFF]) = init"
  using irq_atomic [of "[2, 9, 0xFF]" UnicodeError init 0 "[0xAB, 0x01]" 0 "-42"]
  by (simp add: decode_name_def decode_loop.simps slice_def utf8_decode_def)

subsection \<open>Delivering events\<close>

text \<open>
  The callback writes the list and the flag only, so it commutes with a write to the
  trace or the status line.
\<close>

lemma irq_trace_upd: "irq (s\<lparr>trace := x\<rparr>) e = (irq s e)\<lparr>trace := x\<rparr>"
  by (cases e) (simp_all add: irq_scan_result_def split: sum.splits)

lemma irq_status_upd: "irq (s\<lparr>status := x\<rparr>) e = (irq s e)\<lparr>status := x\<rparr>"
  by (cases e) (simp_all add: irq_scan_result_def split: sum.splits)

lemma deliver_Nil [simp]: "deliver [] s = s"
  by (simp add: deliver_def)

lemma deliver_Cons [simp]: "deliver (e # es) s = deliver es (irq s e)"
  by (simp add: deliver_def)

lemma deliver_append: "deliver (es @ fs) s = deliver fs (deliver es s)"
  by (simp add: deliver_def)

lemma deliver_trace_upd: "deliver es (s\<lparr>trace := x\<rparr>) = (deliver es s)\<lparr>trace := x\<rparr>"
  by (induction es arbitrary: s) (simp_all add: irq_trace_upd)

lemma deliver_status_upd: "deliver es (s\<lparr>status := x\<rparr>) = (deliver es s)\<lparr>status := x\<rparr>"
  by (induction es arbitrary: s) (simp_all add: irq_status_upd)

lemma irq_fields [simp]:
  "trace (irq s e) = trace s" "ble (irq s e) = ble s" "status (irq s e) = status s"
  "button_states (irq s e) = button_states s" "scan_requested (irq s e) = scan_requested s"
  by (cases e; simp add: irq_scan_result_def split: sum.splits)+

lemma deliver_fields [simp]:
  "trace (deliver es s) = trace s" "ble (deliver es s) = ble s" "status (deliver es s) = status s"
  "button_states (deliver es s) = button_states s" "scan_requested (deliver es s) = scan_requested s"
  by (induction es arbitrary: s; simp)+

lemma irq_scan_complete: "scan_complete (irq s e) \<longleftrightarrow> scan_complete s \<or> e = ScanDone"
  by (cases e) (simp_all add: irq_scan_result_def split: sum.splits)

lemma deliver_scan_complete:
  "scan_complete (deliver es s) \<longleftrightarrow> scan_complete s \<or> ScanDone \<in> set es"
  by (induction es arbitrary: s) (auto simp: irq_scan_complete)

subsection \<open>The wait loop\<close>

text \<open>
  The loop in closed form: it makes some number \<open>k\<close> of turns, no more than its
  counter allows, delivers the first \<open>k\<close> batches, records \<open>k\<close> sleeps of 100 ms, and
  stops early only with the flag set.
\<close>

lemma wait_loop_closed:
  "\<exists>k. int k \<le> max 0 t \<and>
       wait_loop t bs s =
         (t - int k, (deliver (concat (take k bs)) s)\<lparr>trace := trace s @ replicate k (Sleep 100)\<rparr>) \<and>
       (int k < t \<longrightarrow> scan_complete (deliver (concat (take k bs)) s)) \<and>
       (\<forall>j<k. \<not> scan_complete (deliver (concat (take j bs)) s))"
proof (induction t bs s rule: wait_loop.induct)
  case (1 t bs s)
  show ?case
  proof (cases "\<not> scan_complete s \<and> t > 0")
    case False
    then have "wait_loop t bs s = (t, s)" by (subst wait_loop.simps) auto
    with False show ?thesis by (intro exI [of _ 0]) auto
  next
    case True
    let ?b = "case bs of [] \<Rightarrow> [] | b # _ \<Rightarrow> b"
    let ?s1 = "deliver ?b (sleep 100 s)"
    from "1.IH" [OF True] obtain k where k: "int k \<le> max 0 (t - 1)"
      and w: "wait_loop (t - 1) (tl bs) ?s1 =
         (t - 1 - int k, (deliver (concat (take k (tl bs))) ?s1)\<lparr>trace := trace ?s1 @ replicate k (Sleep 100)\<rparr>)"
      and c: "int k < t - 1 \<longrightarrow> scan_complete (deliver (concat (take k (tl bs))) ?s1)"
      and m: "\<forall>j<k. \<not> scan_complete (deliver (concat (take j (tl bs))) ?s1)"
      by blast
    have cat: "?b @ concat (take k (tl bs)) = concat (take (Suc k) bs)" for k
      by (cases bs) simp_all
    have st: "deliver (concat (take k (tl bs))) ?s1
        = (deliver (concat (take (Suc k) bs)) s)\<lparr>trace := trace s @ [Sleep 100]\<rparr>" for k
      by (simp add: sleep_def deliver_trace_upd deliver_append [symmetric] cat del: take_Suc_Cons concat.simps)
    have "wait_loop t bs s = wait_loop (t - 1) (tl bs) ?s1"
      using True by (subst wait_loop.simps) simp
    also have "\<dots> = (t - int (Suc k),
        (deliver (concat (take (Suc k) bs)) s)\<lparr>trace := trace s @ replicate (Suc k) (Sleep 100)\<rparr>)"
      unfolding w st by (simp add: sleep_def replicate_app_Cons_same)
    finally have eq: "wait_loop t bs s = (t - int (Suc k),
        (deliver (concat (take (Suc k) bs)) s)\<lparr>trace := trace s @ replicate (Suc k) (Sleep 100)\<rparr>)" .
    have "int (Suc k) \<le> max 0 t" using k True by simp
    moreover have "int (Suc k) < t \<longrightarrow> scan_complete (deliver (concat (take (Suc k) bs)) s)"
      using c unfolding st by simp
    moreover have "\<forall>j<Suc k. \<not> scan_complete (deliver (concat (take j bs)) s)"
    proof (intro allI impI)
      fix j assume j: "j < Suc k"
      show "\<not> scan_complete (deliver (concat (take j bs)) s)"
      proof (cases j)
        case 0
        with True show ?thesis by simp
      next
        case (Suc i)
        with j have "i < k" by simp
        with m have "\<not> scan_complete (deliver (concat (take i (tl bs))) ?s1)" by blast
        then show ?thesis unfolding st Suc by simp
      qed
    qed
    ultimately show ?thesis using eq by blast
  qed
qed

subsection \<open>A scan attempt in which no call raises\<close>

lemma do_scan_try_ok:
  assumes "list_all (succeeds r) (scan_effects s)"
  shows "do_scan_try r (s\<lparr>status := ''Init...'', beacons := [], scan_complete := False\<rparr>) =
     (case wait_loop 30 (polls r) (deliver (early r) (scanning s)) of
        (timeout, s') \<Rightarrow> (None, s'\<lparr>status := ''Found '' @ show_nat (length (beacons s'))\<rparr>))"
proof (cases "ble s")
  case None
  with assms show ?thesis
    by (simp add: do_scan_try_def scan_effects_def and_then_def call_def sleep_def scanning_def)
next
  case (Some h)
  then show ?thesis
  proof (cases "is_active h")
    case True
    then have h: "h = \<lparr>is_active = True\<rparr>" by (cases h) simp
    have X: "scanning s = s\<lparr>beacons := [], scan_complete := False, status := ''Scanning...'',
        trace := trace s @ scan_effects s\<rparr>"
      by (rule app.equality) (simp_all add: scanning_def Some h)
    from assms Some h show ?thesis unfolding X
      by (simp add: do_scan_try_def scan_effects_def and_then_def call_def sleep_def)
  next
    case False
    have hT: "h\<lparr>is_active := True\<rparr> = \<lparr>is_active = True\<rparr>" by (cases h) simp
    from False assms Some show ?thesis
      by (simp add: do_scan_try_def scan_effects_def and_then_def call_def sleep_def scanning_def hT)
  qed
qed

text \<open>
  The whole attempt in closed form: the effects up to \<^verbatim>\<open>gap_scan\<close>, then \<open>k \<le> 30\<close>
  sleeps of 100 ms during which the early events and the first \<open>k\<close> batches are
  delivered, and fewer than 30 sleeps only when a scan-done event was among them.
\<close>

lemma do_scan_ok:
  assumes "list_all (succeeds r) (scan_effects s)"
  shows "\<exists>k \<le> 30. do_scan r s =
      (None, (deliver (early r @ concat (take k (polls r))) (scanning s))
         \<lparr>trace := trace s @ scan_effects s @ replicate k (Sleep 100),
          status := ''Found '' @ show_nat (length (beacons
             (deliver (early r @ concat (take k (polls r))) (scanning s))))\<rparr>)
    \<and> (k < 30 \<longrightarrow> ScanDone \<in> set (early r @ concat (take k (polls r))))
    \<and> (\<forall>j<k. ScanDone \<notin> set (early r @ concat (take j (polls r))))"
proof -
  let ?s1 = "deliver (early r) (scanning s)"
  from wait_loop_closed [of 30 "polls r" ?s1]
  obtain k where k: "int k \<le> max 0 30"
    and w: "wait_loop 30 (polls r) ?s1 =
         (30 - int k, (deliver (concat (take k (polls r))) ?s1)\<lparr>trace := trace ?s1 @ replicate k (Sleep 100)\<rparr>)"
    and c: "int k < 30 \<longrightarrow> scan_complete (deliver (concat (take k (polls r))) ?s1)"
    and m: "\<forall>j<k. \<not> scan_complete (deliver (concat (take j (polls r))) ?s1)"
    by blast
  have "k \<le> 30" using k by simp
  moreover have "do_scan r s =
      (None, (deliver (early r @ concat (take k (polls r))) (scanning s))
         \<lparr>trace := trace s @ scan_effects s @ replicate k (Sleep 100),
          status := ''Found '' @ show_nat (length (beacons
             (deliver (early r @ concat (take k (polls r))) (scanning s))))\<rparr>)"
    unfolding do_scan_def do_scan_try_ok [OF assms] w
    by (simp add: deliver_append scanning_def)
  moreover have "k < 30 \<longrightarrow> ScanDone \<in> set (early r @ concat (take k (polls r)))"
    using c by (auto simp: deliver_scan_complete scanning_def)
  moreover have "\<forall>j<k. ScanDone \<notin> set (early r @ concat (take j (polls r)))"
    using m by (auto simp: deliver_scan_complete scanning_def)
  ultimately show ?thesis by blast
qed

text \<open>
  An attempt in which a call raises ends with the flag unset, whatever the flag was
  when the attempt started.
\<close>

lemma do_scan_failed_flag:
  assumes "first_failure r s = Some (c, msg)"
  shows "\<not> scan_complete (snd (do_scan r s))"
proof (cases "ble s")
  case None
  with assms show ?thesis
    by (auto simp: first_failure_def do_scan_def do_scan_try_def scan_effects_def and_then_def
        call_def sleep_def split: if_splits)
next
  case (Some h)
  with assms show ?thesis
    by (cases "is_active h")
      (auto simp: first_failure_def do_scan_def do_scan_try_def scan_effects_def and_then_def
        call_def sleep_def split: if_splits)
qed

subsection \<open>Addresses are keys\<close>

text \<open>Distinct raw addresses have distinct canonical forms.\<close>

lemma two_hex_inject: "two_hex b = two_hex c \<Longrightarrow> b = c"
proof -
  assume eq: "two_hex b = two_hex c"
  have d: "distinct ''0123456789abcdef''" by simp
  have lb: "unat b < 256" using unsigned_less [of b, where ?'a = nat] by simp
  have lc: "unat c < 256" using unsigned_less [of c, where ?'a = nat] by simp
  have len: "length ''0123456789abcdef'' = 16" by simp
  have hi: "unat b div 16 = unat c div 16"
  proof -
    have "''0123456789abcdef'' ! (unat b div 16) = ''0123456789abcdef'' ! (unat c div 16)"
      using eq by (simp add: two_hex_def)
    moreover have "unat b div 16 < 16" "unat c div 16 < 16" using lb lc by simp_all
    ultimately show ?thesis using d len by (simp only: nth_eq_iff_index_eq)
  qed
  have lo: "unat b mod 16 = unat c mod 16"
  proof -
    have "''0123456789abcdef'' ! (unat b mod 16) = ''0123456789abcdef'' ! (unat c mod 16)"
      using eq by (simp add: two_hex_def)
    moreover have "unat b mod 16 < 16" "unat c mod 16 < 16" by simp_all
    ultimately show ?thesis using d len by (simp only: nth_eq_iff_index_eq)
  qed
  have "unat b = unat c"
    using hi lo by (metis div_mult_mod_eq)
  then show "b = c" by (rule word_unat_eq_iff [THEN iffD2])
qed

lemma two_hex_length [simp]: "length (two_hex b) = 2"
  by (simp add: two_hex_def)

lemma canonical_addr_length:
  "length (canonical_addr a) = 3 * length a - 1"
  by (induction a rule: canonical_addr.induct) simp_all

lemma canonical_addr_inject: "canonical_addr a = canonical_addr b \<Longrightarrow> a = b"
proof (induction a arbitrary: b rule: canonical_addr.induct)
  case 1
  then show ?case
    using canonical_addr_length [of b] by (cases b) (auto simp: two_hex_def)
next
  case (2 x)
  from 2 have "length (canonical_addr b) = 2" by (simp flip: "2")
  then have "length b = 1" using canonical_addr_length [of b] by simp
  then obtain y where "b = [y]" by (cases b) auto
  with 2 show ?case by (auto dest: two_hex_inject)
next
  case (3 x x2 xs)
  have "length (canonical_addr b) = length (canonical_addr (x # x2 # xs))"
    using 3 by simp
  then have "length b = length (x # x2 # xs)"
    using canonical_addr_length [of b] canonical_addr_length [of "x # x2 # xs"] by simp
  then obtain y y2 ys where b: "b = y # y2 # ys"
    by (cases b; cases "tl b") auto
  from "3.prems" have "two_hex x @ CHR '':'' # canonical_addr (x2 # xs)
      = two_hex y @ CHR '':'' # canonical_addr (y2 # ys)" by (simp add: b)
  then have "two_hex x = two_hex y" and "canonical_addr (x2 # xs) = canonical_addr (y2 # ys)"
    by simp_all
  then show ?case using "3.IH" [of "y2 # ys"] by (simp add: b two_hex_inject)
qed

subsection \<open>The outcome of a successful attempt\<close>

lemma deliver_no_discovery:
  "\<not> list_ex is_discovery es \<Longrightarrow> beacons (deliver es s) = beacons s"
proof (induction es arbitrary: s)
  case Nil
  then show ?case by simp
next
  case (Cons e es)
  then show ?case by (cases e) simp_all
qed

lemma last_done_only:
  assumes "xs @ ys = es @ [ScanDone]" and "ScanDone \<notin> set es" and "ScanDone \<in> set xs"
  shows "ys = []"
proof (rule ccontr)
  assume "ys \<noteq> []"
  then obtain zs z where ys: "ys = zs @ [z]" by (metis rev_exhaust)
  with assms(1) have "xs @ zs = es" by simp
  with assms(2,3) show False by auto
qed

text \<open>
  C4. When no call of the attempt raises, the final status line is
  \<^verbatim>\<open>Found n\<close> with \<open>n\<close> the length of the list at that point. When the radio
  delivers no discovery event it is \<^verbatim>\<open>Found 0\<close>. When the radio delivers, within
  the thirty turns of the wait, discovery events for the addresses \<open>A\<close>, \<open>B\<close>, \<open>A\<close>
  (\<open>A \<noteq> B\<close>, the first two with payloads the decoder accepts) and then scan-done, the
  list holds the entries for \<open>A\<close> and \<open>B\<close> in this order and the status line is
  \<^verbatim>\<open>Found 2\<close>.
\<close>

theorem scan_completed_count:
  assumes "list_all (succeeds r) (scan_effects s)"
  shows "status (snd (do_scan r s)) = ''Found '' @ show_nat (length (beacons (snd (do_scan r s)))) \<and>
    (\<not> list_ex is_discovery (early r @ concat (polls r)) \<longrightarrow>
       beacons (snd (do_scan r s)) = [] \<and> status (snd (do_scan r s)) = ''Found 0'') \<and>
    (early r @ concat (polls r)
        = [ScanResult t1 A v1 r1 d1, ScanResult t2 B v2 r2 d2, ScanResult t3 A v3 r3 d3, ScanDone]
      \<and> length (polls r) \<le> 30 \<and> A \<noteq> B \<and> decode_name d1 = Inr x1 \<and> decode_name d2 = Inr x2 \<longrightarrow>
       beacons (snd (do_scan r s))
         = [\<lparr>name = or_placeholder x1, rssi = r1, addr = canonical_addr A\<rparr>,
            \<lparr>name = or_placeholder x2, rssi = r2, addr = canonical_addr B\<rparr>]
       \<and> status (snd (do_scan r s)) = ''Found 2'')"
proof -
  from do_scan_ok [OF assms] obtain k where k: "k \<le> 30"
    and ds: "do_scan r s =
      (None, (deliver (early r @ concat (take k (polls r))) (scanning s))
         \<lparr>trace := trace s @ scan_effects s @ replicate k (Sleep 100),
          status := ''Found '' @ show_nat (length (beacons
             (deliver (early r @ concat (take k (polls r))) (scanning s))))\<rparr>)"
    and fin: "k < 30 \<longrightarrow> ScanDone \<in> set (early r @ concat (take k (polls r)))"
    by blast
  let ?got = "early r @ concat (take k (polls r))"
  have b: "beacons (snd (do_scan r s)) = beacons (deliver ?got (scanning s))"
    and st: "status (snd (do_scan r s)) = ''Found '' @ show_nat (length (beacons (deliver ?got (scanning s))))"
    by (simp_all add: ds)
  have 1: "status (snd (do_scan r s)) = ''Found '' @ show_nat (length (beacons (snd (do_scan r s))))"
    by (simp only: b st)
  have 2: "beacons (snd (do_scan r s)) = [] \<and> status (snd (do_scan r s)) = ''Found 0''"
    if none: "\<not> list_ex is_discovery (early r @ concat (polls r))"
  proof -
    have "set ?got \<subseteq> set (early r @ concat (polls r))"
      by (auto dest: in_set_takeD)
    with none have "\<not> list_ex is_discovery ?got" unfolding list_ex_iff by blast
    then have "beacons (deliver ?got (scanning s)) = []"
      by (simp add: deliver_no_discovery scanning_def)
    then show ?thesis by (simp add: b st show_nat.simps)
  qed
  have 3: "beacons (snd (do_scan r s))
         = [\<lparr>name = or_placeholder x1, rssi = r1, addr = canonical_addr A\<rparr>,
            \<lparr>name = or_placeholder x2, rssi = r2, addr = canonical_addr B\<rparr>]
       \<and> status (snd (do_scan r s)) = ''Found 2''"
    if evs: "early r @ concat (polls r)
        = [ScanResult t1 A v1 r1 d1, ScanResult t2 B v2 r2 d2, ScanResult t3 A v3 r3 d3, ScanDone]"
      and len: "length (polls r) \<le> 30" and ne: "A \<noteq> B"
      and d1: "decode_name d1 = Inr x1" and d2: "decode_name d2 = Inr x2"
  proof -
    have all: "?got = early r @ concat (polls r)"
    proof (cases "k < 30")
      case False
      with k len show ?thesis by simp
    next
      case True
      with fin have in_got: "ScanDone \<in> set ?got" by simp
      have "?got @ concat (drop k (polls r)) = early r @ concat (polls r)"
        by (simp flip: concat_append)
      then have "?got @ concat (drop k (polls r))
          = [ScanResult t1 A v1 r1 d1, ScanResult t2 B v2 r2 d2, ScanResult t3 A v3 r3 d3] @ [ScanDone]"
        using evs by simp
      from last_done_only [OF this _ in_got] have "concat (drop k (polls r)) = []" by simp
      then have "concat (take k (polls r)) = concat (polls r)"
        by (metis append_Nil2 append_take_drop_id concat_append)
      then show ?thesis by simp
    qed
    have ne': "addr_str A \<noteq> addr_str B"
      using ne canonical_addr_inject [of A B] by (auto simp: addr_str_canonical)
    have "beacons (deliver ?got (scanning s))
        = [\<lparr>name = or_placeholder x1, rssi = r1, addr = addr_str A\<rparr>,
           \<lparr>name = or_placeholder x2, rssi = r2, addr = addr_str B\<rparr>]"
      unfolding all evs using ne' d1 d2
      by (cases "decode_name d3") (simp_all add: irq_scan_result_def upsert_def scanning_def)
    then show ?thesis by (simp add: b st show_nat.simps addr_str_canonical)
  qed
  show ?thesis using 1 2 3 by blast
qed

theorem scan_completed_count_witness:
  "list_all (succeeds \<lparr>fails = (\<lambda>c. None), early = [],
       polls = [[ScanResult 0 [0xAA, 0x01] 0 (-40) [2, 9, 0x41]],
                [ScanResult 0 [0xBB, 0x02] 0 (-50) [2, 9, 0x42],
                 ScanResult 0 [0xAA, 0x01] 0 (-60) [2, 9, 0x43]],
                [ScanDone]]\<rparr>) (scan_effects init) \<and>
   beacons (snd (do_scan \<lparr>fails = (\<lambda>c. None), early = [],
       polls = [[ScanResult 0 [0xAA, 0x01] 0 (-40) [2, 9, 0x41]],
                [ScanResult 0 [0xBB, 0x02] 0 (-50) [2, 9, 0x42],
                 ScanResult 0 [0xAA, 0x01] 0 (-60) [2, 9, 0x43]],
                [ScanDone]]\<rparr> init))
     = [\<lparr>name = [0x41], rssi = -40, addr = ''aa:01''\<rparr>,
        \<lparr>name = [0x42], rssi = -50, addr = ''bb:02''\<rparr>] \<and>
   status (snd (do_scan \<lparr>fails = (\<lambda>c. None), early = [],
       polls = [[ScanResult 0 [0xAA, 0x01] 0 (-40) [2, 9, 0x41]],
                [ScanResult 0 [0xBB, 0x02] 0 (-50) [2, 9, 0x42],
                 ScanResult 0 [0xAA, 0x01] 0 (-60) [2, 9, 0x43]],
                [ScanDone]]\<rparr> init)) = ''Found 2''"
  using scan_completed_count [where s = init and A = "[0xAA, 0x01]" and B = "[0xBB, 0x02]"
      and ?t1.0 = 0 and ?v1.0 = 0 and ?r1.0 = "-40" and ?d1.0 = "[2, 9, 0x41]"
      and ?t2.0 = 0 and ?v2.0 = 0 and ?r2.0 = "-50" and ?d2.0 = "[2, 9, 0x42]"
      and ?t3.0 = 0 and ?v3.0 = 0 and ?r3.0 = "-60" and ?d3.0 = "[2, 9, 0x43]"
      and ?x1.0 = "Some [0x41]" and ?x2.0 = "Some [0x42]"
      and r = "\<lparr>fails = (\<lambda>c. None), early = [],
       polls = [[ScanResult 0 [0xAA, 0x01] 0 (-40) [2, 9, 0x41]],
                [ScanResult 0 [0xBB, 0x02] 0 (-50) [2, 9, 0x42],
                 ScanResult 0 [0xAA, 0x01] 0 (-60) [2, 9, 0x43]],
                [ScanDone]]\<rparr>"]
  by (simp add: scan_effects_def init_def decode_name_def decode_loop.simps slice_def
      utf8_decode_def two_hex_def or_placeholder_def show_nat.simps [of "Suc (Suc 0)"])

text \<open>
  C5. The wait always ends. When no call of the attempt raises, \<^verbatim>\<open>_do_scan\<close> returns
  without an exception after the effects up to \<^verbatim>\<open>gap_scan\<close> and at most thirty
  sleeps of 100 ms each, whatever events the radio delivers, and the status line is
  \<^verbatim>\<open>Found n\<close>; when no scan-done event ever arrives the sleeps are exactly thirty.
\<close>

theorem wait_bounded:
  assumes "list_all (succeeds r) (scan_effects s)"
  shows "fst (do_scan r s) = None \<and>
    (\<exists>k \<le> 30. trace (snd (do_scan r s)) = trace s @ scan_effects s @ replicate k (Sleep 100)) \<and>
    status (snd (do_scan r s)) = ''Found '' @ show_nat (length (beacons (snd (do_scan r s)))) \<and>
    (ScanDone \<notin> set (early r @ concat (polls r)) \<longrightarrow>
       trace (snd (do_scan r s)) = trace s @ scan_effects s @ replicate 30 (Sleep 100))"
proof -
  from do_scan_ok [OF assms] obtain k where k: "k \<le> 30"
    and ds: "do_scan r s =
      (None, (deliver (early r @ concat (take k (polls r))) (scanning s))
         \<lparr>trace := trace s @ scan_effects s @ replicate k (Sleep 100),
          status := ''Found '' @ show_nat (length (beacons
             (deliver (early r @ concat (take k (polls r))) (scanning s))))\<rparr>)"
    and fin: "k < 30 \<longrightarrow> ScanDone \<in> set (early r @ concat (take k (polls r)))"
    by blast
  have 1: "fst (do_scan r s) = None" by (simp add: ds)
  have tr: "trace (snd (do_scan r s)) = trace s @ scan_effects s @ replicate k (Sleep 100)"
    by (simp add: ds)
  have 3: "status (snd (do_scan r s)) = ''Found '' @ show_nat (length (beacons (snd (do_scan r s))))"
    by (simp add: ds)
  have 4: "trace (snd (do_scan r s)) = trace s @ scan_effects s @ replicate 30 (Sleep 100)"
    if never: "ScanDone \<notin> set (early r @ concat (polls r))"
  proof -
    have "set (early r @ concat (take k (polls r))) \<subseteq> set (early r @ concat (polls r))"
      by (auto dest: in_set_takeD)
    with never have "ScanDone \<notin> set (early r @ concat (take k (polls r)))" by blast
    with fin k have "k = 30" by auto
    with tr show ?thesis by simp
  qed
  show ?thesis using 1 k tr 3 4 by blast
qed

theorem wait_bounded_witness:
  "list_all (succeeds \<lparr>fails = (\<lambda>c. None), early = [], polls = []\<rparr>) (scan_effects init) \<and>
   fst (do_scan \<lparr>fails = (\<lambda>c. None), early = [], polls = []\<rparr> init) = None \<and>
   trace (snd (do_scan \<lparr>fails = (\<lambda>c. None), early = [], polls = []\<rparr> init))
     = [Radio ImportBluetooth, Radio Create, Radio IsActive, Radio IsActive, Radio SetIrq,
        Radio (Activate True), Sleep 300, Radio (GapScan 2000 30000 30000)]
       @ replicate 30 (Sleep 100)"
  using wait_bounded [of "\<lparr>fails = (\<lambda>c. None), early = [], polls = []\<rparr>" init]
  by (simp add: scan_effects_def init_def)

text \<open>
  C10. The flag is reset at the start of the attempt, before any call into the radio
  and so before \<^verbatim>\<open>gap_scan\<close>. An attempt that starts with the flag set does exactly
  what it does with the flag unset. When a call of the attempt raises, \<^verbatim>\<open>gap_scan\<close>
  included, the attempt ends with the flag unset whatever it was at the start. When
  no call raises, the wait makes \<open>k \<le> 30\<close> turns, where \<open>k\<close> is the first number of
  turns after which a scan-done event has been delivered since \<^verbatim>\<open>gap_scan\<close>
  returned (thirty when there is none): fewer than thirty turns only with such an
  event, no turn at all when it is among the early events, and the flag at the end
  is set exactly when such an event was delivered.
\<close>

theorem stale_flag_ignored:
  "do_scan r (s\<lparr>scan_complete := True\<rparr>) = do_scan r (s\<lparr>scan_complete := False\<rparr>) \<and>
   (first_failure r s = Some (c, msg) \<longrightarrow> \<not> scan_complete (snd (do_scan r s))) \<and>
   (list_all (succeeds r) (scan_effects s) \<longrightarrow>
      (\<exists>k \<le> 30.
         trace (snd (do_scan r s)) = trace s @ scan_effects s @ replicate k (Sleep 100) \<and>
         (k < 30 \<longrightarrow> ScanDone \<in> set (early r @ concat (take k (polls r)))) \<and>
         (\<forall>j<k. ScanDone \<notin> set (early r @ concat (take j (polls r)))) \<and>
         (scan_complete (snd (do_scan r s)) \<longleftrightarrow>
            ScanDone \<in> set (early r @ concat (take k (polls r))))) \<and>
      (ScanDone \<in> set (early r) \<longrightarrow>
         trace (snd (do_scan r s)) = trace s @ scan_effects s \<and> scan_complete (snd (do_scan r s))))"
proof -
  have 1: "do_scan r (s\<lparr>scan_complete := True\<rparr>) = do_scan r (s\<lparr>scan_complete := False\<rparr>)"
    by (simp add: do_scan_def)
  have 2: "\<not> scan_complete (snd (do_scan r s))" if "first_failure r s = Some (c, msg)"
    using that by (rule do_scan_failed_flag)
  have 3: "(\<exists>k \<le> 30.
         trace (snd (do_scan r s)) = trace s @ scan_effects s @ replicate k (Sleep 100) \<and>
         (k < 30 \<longrightarrow> ScanDone \<in> set (early r @ concat (take k (polls r)))) \<and>
         (\<forall>j<k. ScanDone \<notin> set (early r @ concat (take j (polls r)))) \<and>
         (scan_complete (snd (do_scan r s)) \<longleftrightarrow>
            ScanDone \<in> set (early r @ concat (take k (polls r))))) \<and>
      (ScanDone \<in> set (early r) \<longrightarrow>
         trace (snd (do_scan r s)) = trace s @ scan_effects s \<and> scan_complete (snd (do_scan r s)))"
    if ok: "list_all (succeeds r) (scan_effects s)"
  proof -
    from do_scan_ok [OF ok] obtain k where k: "k \<le> 30"
      and ds: "do_scan r s =
        (None, (deliver (early r @ concat (take k (polls r))) (scanning s))
           \<lparr>trace := trace s @ scan_effects s @ replicate k (Sleep 100),
            status := ''Found '' @ show_nat (length (beacons
               (deliver (early r @ concat (take k (polls r))) (scanning s))))\<rparr>)"
      and fin: "k < 30 \<longrightarrow> ScanDone \<in> set (early r @ concat (take k (polls r)))"
      and least: "\<forall>j<k. ScanDone \<notin> set (early r @ concat (take j (polls r)))"
      by blast
    have tr: "trace (snd (do_scan r s)) = trace s @ scan_effects s @ replicate k (Sleep 100)"
      by (simp add: ds)
    have fl: "scan_complete (snd (do_scan r s)) \<longleftrightarrow>
        ScanDone \<in> set (early r @ concat (take k (polls r)))"
      by (simp add: ds deliver_scan_complete scanning_def)
    have "trace (snd (do_scan r s)) = trace s @ scan_effects s \<and> scan_complete (snd (do_scan r s))"
      if e: "ScanDone \<in> set (early r)"
    proof -
      have "k = 0"
      proof (rule ccontr)
        assume "k \<noteq> 0"
        then have "0 < k" by simp
        with least have "ScanDone \<notin> set (early r @ concat (take 0 (polls r)))" by blast
        with e show False by simp
      qed
      with tr fl e show ?thesis by simp
    qed
    with k tr fin least fl show ?thesis by blast
  qed
  show ?thesis using 1 2 3 by blast
qed

theorem stale_flag_ignored_witness:
  "scan_complete (init\<lparr>scan_complete := True\<rparr>) \<and>
   list_all (succeeds \<lparr>fails = (\<lambda>c. None), early = [], polls = [[OtherEvent 1]]\<rparr>)
     (scan_effects (init\<lparr>scan_complete := True\<rparr>)) \<and>
   trace (snd (do_scan \<lparr>fails = (\<lambda>c. None), early = [], polls = [[OtherEvent 1]]\<rparr>
                     (init\<lparr>scan_complete := True\<rparr>)))
      = [Radio ImportBluetooth, Radio Create, Radio IsActive, Radio IsActive, Radio SetIrq,
         Radio (Activate True), Sleep 300, Radio (GapScan 2000 30000 30000)]
        @ replicate 30 (Sleep 100) \<and>
   \<not> scan_complete (snd (do_scan \<lparr>fails = (\<lambda>c. None), early = [], polls = [[OtherEvent 1]]\<rparr>
                     (init\<lparr>scan_complete := True\<rparr>))) \<and>
   list_all (succeeds \<lparr>fails = (\<lambda>c. None), early = [ScanDone], polls = []\<rparr>) (scan_effects init) \<and>
   trace (snd (do_scan \<lparr>fails = (\<lambda>c. None), early = [ScanDone], polls = []\<rparr> init))
      = [Radio ImportBluetooth, Radio Create, Radio IsActive, Radio IsActive, Radio SetIrq,
         Radio (Activate True), Sleep 300, Radio (GapScan 2000 30000 30000)] \<and>
   first_failure \<lparr>fails = (\<lambda>c. if c = GapScan 2000 30000 30000 then Some ''EBUSY'' else None),
       early = [ScanDone], polls = []\<rparr> (init\<lparr>scan_complete := True\<rparr>)
     = Some (GapScan 2000 30000 30000, ''EBUSY'') \<and>
   \<not> scan_complete (snd (do_scan
       \<lparr>fails = (\<lambda>c. if c = GapScan 2000 30000 30000 then Some ''EBUSY'' else None),
        early = [ScanDone], polls = []\<rparr> (init\<lparr>scan_complete := True\<rparr>)))"
  using stale_flag_ignored [of "\<lparr>fails = (\<lambda>c. None), early = [], polls = [[OtherEvent 1]]\<rparr>"
      "init\<lparr>scan_complete := True\<rparr>"]
    stale_flag_ignored [of "\<lparr>fails = (\<lambda>c. None), early = [ScanDone], polls = []\<rparr>" init]
    stale_flag_ignored [of
      "\<lparr>fails = (\<lambda>c. if c = GapScan 2000 30000 30000 then Some ''EBUSY'' else None),
        early = [ScanDone], polls = []\<rparr>" "init\<lparr>scan_complete := True\<rparr>"
      "GapScan 2000 30000 30000" "''EBUSY''"]
  by (auto simp: scan_effects_def first_failure_def init_def dest: in_set_takeD)

subsection \<open>A scan attempt in which a call raises\<close>

text \<open>
  C6. When a call of the attempt raises (the first one to do so being \<open>c\<close>, with
  message \<open>msg\<close>), \<^verbatim>\<open>_do_scan\<close> returns without an exception, the status line is
  \<^verbatim>\<open>Err: \<close> followed by the first 15 characters of the message, the list is empty
  and the flag is unset. Nothing is done after the failing call: the wait is never
  entered, and \<^verbatim>\<open>gap_scan\<close> is not called unless it is the call that failed.
\<close>

theorem scan_failure:
  assumes "first_failure r s = Some (c, msg)"
  shows "fst (do_scan r s) = None \<and>
    status (snd (do_scan r s)) = ''Err: '' @ take 15 msg \<and>
    length (status (snd (do_scan r s))) \<le> 20 \<and>
    beacons (snd (do_scan r s)) = [] \<and>
    \<not> scan_complete (snd (do_scan r s)) \<and>
    trace (snd (do_scan r s)) = trace s @ takeWhile (succeeds r) (scan_effects s) @ [Radio c] \<and>
    Sleep 100 \<notin> set (takeWhile (succeeds r) (scan_effects s) @ [Radio c]) \<and>
    (c \<noteq> GapScan 2000 30000 30000 \<longrightarrow>
       Radio (GapScan 2000 30000 30000) \<notin> set (takeWhile (succeeds r) (scan_effects s) @ [Radio c]))"
proof (cases "ble s")
  case None
  with assms show ?thesis
    by (auto simp: first_failure_def do_scan_def do_scan_try_def scan_effects_def and_then_def
        call_def sleep_def split: if_splits)
next
  case (Some h)
  with assms show ?thesis
    by (cases "is_active h")
      (auto simp: first_failure_def do_scan_def do_scan_try_def scan_effects_def and_then_def
        call_def sleep_def split: if_splits)
qed

theorem scan_failure_witness:
  "first_failure \<lparr>fails = (\<lambda>c. if c = Activate True then Some ''[Errno 12] ENOMEM'' else None),
       early = [], polls = [[ScanDone]]\<rparr> init = Some (Activate True, ''[Errno 12] ENOMEM'') \<and>
   status (snd (do_scan \<lparr>fails = (\<lambda>c. if c = Activate True then Some ''[Errno 12] ENOMEM'' else None),
       early = [], polls = [[ScanDone]]\<rparr> init)) = ''Err: [Errno 12] ENOM'' \<and>
   trace (snd (do_scan \<lparr>fails = (\<lambda>c. if c = Activate True then Some ''[Errno 12] ENOMEM'' else None),
       early = [], polls = [[ScanDone]]\<rparr> init))
     = [Radio ImportBluetooth, Radio Create, Radio IsActive, Radio IsActive, Radio SetIrq,
        Radio (Activate True)]"
  using scan_failure [of "\<lparr>fails = (\<lambda>c. if c = Activate True then Some ''[Errno 12] ENOMEM'' else None),
       early = [], polls = [[ScanDone]]\<rparr>" init "Activate True" "''[Errno 12] ENOMEM''"]
  by (simp add: first_failure_def scan_effects_def init_def)

subsection \<open>Teardown and leaving the loop\<close>

lemma cleanup_ble_trace:
  "cleanup_ble r s = (None, s') \<Longrightarrow>
   trace s' = trace s @
     (case ble s of
        None \<Rightarrow> []
      | Some h \<Rightarrow> Radio GapScanStop #
          (if fails r GapScanStop = None then [Radio (Activate False)] else []))"
  by (auto simp: cleanup_ble_def and_then_def call_def split: option.splits prod.splits)

text \<open>
  C7. \<^verbatim>\<open>_cleanup_ble\<close> returns without an exception whatever the radio object is and
  whichever of its calls raise; it stops the scan and, when that call went through,
  deactivates the radio. A turn of the loop that finds CANCEL pressed runs the
  teardown, minimises and returns from \<^verbatim>\<open>run\<close>, whatever the teardown met and
  whatever else was pressed.
\<close>

theorem cancel_always_exits:
  "fst (cleanup_ble r s) = None \<and>
   trace (snd (cleanup_ble r s)) = trace s @
     (case ble s of
        None \<Rightarrow> []
      | Some h \<Rightarrow> Radio GapScanStop #
          (if fails r GapScanStop = None then [Radio (Activate False)] else [])) \<and>
   (btn_cancel (pressed f) \<or> btn_cancel (button_states s) \<longrightarrow>
      fst (run (f # fs) s) = Exited \<and>
      trace (snd (run (f # fs) s)) = trace s @
        (case ble s of
           None \<Rightarrow> []
         | Some h \<Rightarrow> Radio GapScanStop #
             (if fails (radio_now f) GapScanStop = None then [Radio (Activate False)] else []))
        @ [Minimise])"
proof -
  have a: "fst (cleanup_ble r s) = None" for r s
    by (simp add: cleanup_ble_def split: option.splits prod.splits)
  have b: "trace (snd (cleanup_ble r s)) = trace s @
     (case ble s of
        None \<Rightarrow> []
      | Some h \<Rightarrow> Radio GapScanStop #
          (if fails r GapScanStop = None then [Radio (Activate False)] else []))" for r s
    using cleanup_ble_trace [of r s "snd (cleanup_ble r s)"] a [of r s]
    by (cases "cleanup_ble r s") simp
  have c: "fst (run (f # fs) s) = Exited \<and>
      trace (snd (run (f # fs) s)) = trace s @
        (case ble s of
           None \<Rightarrow> []
         | Some h \<Rightarrow> Radio GapScanStop #
             (if fails (radio_now f) GapScanStop = None then [Radio (Activate False)] else []))
        @ [Minimise]"
    if "btn_cancel (pressed f) \<or> btn_cancel (button_states s)"
  proof -
    let ?s = "clear_buttons (press (pressed f) s)"
    obtain e s' where cl: "cleanup_ble (radio_now f) ?s = (e, s')"
      by (cases "cleanup_ble (radio_now f) ?s")
    with a [of "radio_now f" ?s] have e: "e = None" by simp
    have "trace s' = trace ?s @
        (case ble ?s of
           None \<Rightarrow> []
         | Some h \<Rightarrow> Radio GapScanStop #
             (if fails (radio_now f) GapScanStop = None then [Radio (Activate False)] else []))"
      using b [of "radio_now f" ?s] cl by simp
    moreover have "trace ?s = trace s" "ble ?s = ble s"
      by (simp_all add: clear_buttons_def press_def)
    moreover have "btn_cancel (button_states (press (pressed f) s))"
      using that by (auto simp: press_def)
    ultimately show ?thesis using cl e by simp
  qed
  show ?thesis using a b c by blast
qed

theorem cancel_always_exits_witness:
  "fst (run [\<lparr>pressed = \<lparr>btn_cancel = True, btn_up = True, btn_down = False\<rparr>,
              radio_now = \<lparr>fails = (\<lambda>c. Some ''EBUSY''), early = [], polls = []\<rparr>\<rparr>]
         (init\<lparr>ble := Some \<lparr>is_active = True\<rparr>\<rparr>)) = Exited \<and>
   trace (snd (run [\<lparr>pressed = \<lparr>btn_cancel = True, btn_up = True, btn_down = False\<rparr>,
              radio_now = \<lparr>fails = (\<lambda>c. Some ''EBUSY''), early = [], polls = []\<rparr>\<rparr>]
         (init\<lparr>ble := Some \<lparr>is_active = True\<rparr>\<rparr>))) = [Radio GapScanStop, Minimise]"
  using cancel_always_exits [of "\<lparr>fails = (\<lambda>c. Some ''EBUSY''), early = [], polls = []\<rparr>"
      "init\<lparr>ble := Some \<lparr>is_active = True\<rparr>\<rparr>"
      "\<lparr>pressed = \<lparr>btn_cancel = True, btn_up = True, btn_down = False\<rparr>,
              radio_now = \<lparr>fails = (\<lambda>c. Some ''EBUSY''), early = [], polls = []\<rparr>\<rparr>" "[]"]
  by (simp add: init_def del: run.simps)

end
